theory Spec2Isabelle
  imports Main "HOL-Library.Word" "HOL-Library.Multiset"
begin

section \<open>Fault taxonomy (simulator\_exception.h)\<close>

text \<open>
  The macro list \<^verbatim>\<open>SIMULATOR_EXCEPTIONS\<close> declares one class
  \<^verbatim>\<open>SimulatorException##NAME\<close> per entry, deriving from
  \<^verbatim>\<open>SimulatorException##PARENT\<close>; an empty parent is the common base class
  \<^verbatim>\<open>SimulatorException\<close> itself.  The names are the constructors of
  \<open>exception_name\<close>, the list keeps the order and the parents of the macro.
\<close>

datatype exception_name =
    Input
  | Runtime
  | UnsupportedInstruction
  | UnsupportedAluOperation
  | Overflow
  | UnalignedJump
  | UnknownMemoryControl
  | OutOfMemoryAccess
  | Sanity
  | SyscallUnknown

definition SIMULATOR_EXCEPTIONS :: "(exception_name \<times> exception_name option) list" where
  "SIMULATOR_EXCEPTIONS =
    [(Input, None),
     (Runtime, None),
     (UnsupportedInstruction, Some Runtime),
     (UnsupportedAluOperation, Some Runtime),
     (Overflow, Some Runtime),
     (UnalignedJump, Some Runtime),
     (UnknownMemoryControl, Some Runtime),
     (OutOfMemoryAccess, Some Runtime),
     (Sanity, None),
     (SyscallUnknown, Some Runtime)]"

text \<open>The direct base class of a generated class, \<open>None\<close> for the common base.\<close>

definition parent :: "exception_name \<Rightarrow> exception_name option" where
  "parent k = (case map_of SIMULATOR_EXCEPTIONS k of None \<Rightarrow> None | Some p \<Rightarrow> p)"

text \<open>The classes generated with a given direct base class.\<close>

definition children :: "exception_name \<Rightarrow> exception_name list" where
  "children c = map fst (filter (\<lambda>e. snd e = Some c) SIMULATOR_EXCEPTIONS)"

text \<open>
  All proper base classes of a generated class, nearest first.  The recursion follows the
  inheritance chain; it ends because a class named as a parent in the macro list has the
  common base as its own parent.
\<close>

function ancestors :: "exception_name \<Rightarrow> exception_name list" where
  "ancestors k = (case parent k of None \<Rightarrow> [] | Some p \<Rightarrow> p # ancestors p)"
  by pat_completeness auto
termination
proof (relation "measure (\<lambda>k. case parent k of None \<Rightarrow> 0 | Some _ \<Rightarrow> Suc 0)")
  show "wf (measure (\<lambda>k. case parent k of None \<Rightarrow> 0 | Some _ \<Rightarrow> Suc 0))"
    by simp
next
  fix k p
  assume "parent k = Some p"
  then show "(p, k) \<in> measure (\<lambda>k. case parent k of None \<Rightarrow> 0 | Some _ \<Rightarrow> Suc 0)"
    by (cases k) (simp_all add: parent_def SIMULATOR_EXCEPTIONS_def)
qed

declare ancestors.simps [simp del]

text \<open>
  A handler \<^verbatim>\<open>catch (SimulatorException##c &)\<close> catches a thrown object of class
  \<open>k\<close> exactly when \<open>k\<close> is \<open>c\<close> or derives from it.
\<close>

definition caught_by :: "exception_name \<Rightarrow> exception_name \<Rightarrow> bool" where
  "caught_by k c \<longleftrightarrow> k = c \<or> c \<in> set (ancestors k)"

text \<open>
  What a call can throw: an object of one of the generated classes, the standard library's
  \<^verbatim>\<open>std::out_of_range\<close> (thrown by \<^verbatim>\<open>vector::at\<close>, not a
  \<^verbatim>\<open>SimulatorException\<close>), or the trap of an integer division by zero.
\<close>

datatype exn =
    SimulatorException exception_name
  | std_out_of_range
  | division_by_zero

type_synonym uint32_t = "32 word"

text \<open>\<^verbatim>\<open>std::vector::at\<close>: bounds-checked element access.\<close>

definition at :: "'a list \<Rightarrow> nat \<Rightarrow> exn + 'a" where
  "at v n = (if n < length v then Inr (v ! n) else Inl std_out_of_range)"

text \<open>
  \<^verbatim>\<open>try { ... } catch (std::out_of_range &e) { throw SANITY_EXCEPTION(...); }\<close>:
  an escaping \<^verbatim>\<open>std::out_of_range\<close> is replaced by a Sanity exception, every other
  outcome passes through.
\<close>

definition catch_out_of_range :: "exn + 'a \<Rightarrow> exn + 'a" where
  "catch_out_of_range r =
    (case r of
       Inl std_out_of_range \<Rightarrow> Inl (SimulatorException Sanity)
     | Inl e \<Rightarrow> Inl e
     | Inr x \<Rightarrow> Inr x)"

section \<open>Replacement policies (cache\_policy.cpp)\<close>

subsection \<open>LRU\<close>

text \<open>
  \<^verbatim>\<open>CachePolicyLRU\<close> keeps the member \<^verbatim>\<open>associativity\<close> and, per row, a
  \<^verbatim>\<open>std::vector<uint32_t>\<close> of ways, next victim first.  Sizes and indices
  (\<^verbatim>\<open>size_t\<close>) are natural numbers, the signed loop index (\<^verbatim>\<open>ssize_t\<close>) is an
  integer, and the stored ways are 32-bit words: storing a \<^verbatim>\<open>size_t\<close> in a row
  truncates it (\<open>of_nat\<close>), comparing a stored way with a \<^verbatim>\<open>size_t\<close> widens it
  (\<open>unat\<close>).
\<close>

record lru_policy =
  associativity_LRU :: nat
  stats_LRU :: "uint32_t list list"

text \<open>The constructor: \<^verbatim>\<open>set_count\<close> rows, each filled with \<open>0, 1, ...\<close> by \<^verbatim>\<open>push_back(i)\<close>.\<close>

definition CachePolicyLRU :: "nat \<Rightarrow> nat \<Rightarrow> lru_policy" where
  "CachePolicyLRU associativity set_count =
    \<lparr>associativity_LRU = associativity,
     stats_LRU = replicate set_count (map of_nat [0..<associativity])\<rparr>"

text \<open>
  The loop of the \<^verbatim>\<open>is_valid\<close> branch,
  \<^verbatim>\<open>do { std::swap(row_stats.at(i), next_way); i--; } while (next_way != way);\<close>
  entered with the current \<open>i\<close> and \<open>next_way\<close>.  A negative \<open>i\<close> converts to a
  \<^verbatim>\<open>size_t\<close> beyond every vector size, so \<^verbatim>\<open>at\<close> throws.
\<close>

function move_to_back_loop :: "nat \<Rightarrow> uint32_t list \<Rightarrow> int \<Rightarrow> uint32_t \<Rightarrow> exn + uint32_t list" where
  "move_to_back_loop way row_stats i next_way =
    (if i < 0 \<or> length row_stats \<le> nat i then Inl std_out_of_range
     else if unat (row_stats ! nat i) \<noteq> way
       then move_to_back_loop way (row_stats[nat i := next_way]) (i - 1) (row_stats ! nat i)
       else Inr (row_stats[nat i := next_way]))"
  by pat_completeness auto
termination
  by (relation "measure (\<lambda>(way, row_stats, i, next_way). nat (i + 1))") auto

declare move_to_back_loop.simps [simp del]

text \<open>
  The loop of the other branch,
  \<^verbatim>\<open>do { std::swap(row_stats.at(i), next_way); i++; } while (next_way != way);\<close>
  with an unsigned index counting up.
\<close>

function move_to_front_loop :: "nat \<Rightarrow> uint32_t list \<Rightarrow> nat \<Rightarrow> uint32_t \<Rightarrow> exn + uint32_t list" where
  "move_to_front_loop way row_stats i next_way =
    (if length row_stats \<le> i then Inl std_out_of_range
     else if unat (row_stats ! i) \<noteq> way
       then move_to_front_loop way (row_stats[i := next_way]) (Suc i) (row_stats ! i)
       else Inr (row_stats[i := next_way]))"
  by pat_completeness auto
termination
  by (relation "measure (\<lambda>(way, row_stats, i, next_way). length row_stats - i)") auto

declare move_to_front_loop.simps [simp del]

text \<open>
  \<^verbatim>\<open>CachePolicyLRU::update_stats\<close>.  The row is modified in place through a reference,
  so a normal return stores the reordered row back; the whole body is inside the
  \<^verbatim>\<open>try\<close> block.  The result of a call that throws is the exception alone: the
  C++ object is left with the row as far as the loop had shifted it, and nothing here
  continues from such an object.
\<close>

definition update_stats_LRU :: "nat \<Rightarrow> nat \<Rightarrow> bool \<Rightarrow> lru_policy \<Rightarrow> exn + lru_policy" where
  "update_stats_LRU way row is_valid p =
    catch_out_of_range
      (case at (stats_LRU p) row of
         Inl e \<Rightarrow> Inl e
       | Inr row_stats \<Rightarrow>
           (case (if is_valid
                  then move_to_back_loop way row_stats (int (associativity_LRU p) - 1) (of_nat way)
                  else move_to_front_loop way row_stats 0 (of_nat way)) of
              Inl e \<Rightarrow> Inl e
            | Inr row_stats' \<Rightarrow> Inr (p\<lparr>stats_LRU := (stats_LRU p)[row := row_stats']\<rparr>)))"

text \<open>\<^verbatim>\<open>CachePolicyLRU::select_way_to_evict\<close>: \<^verbatim>\<open>stats.at(row).at(0)\<close>, no handler.\<close>

definition select_way_to_evict_LRU :: "nat \<Rightarrow> lru_policy \<Rightarrow> exn + nat" where
  "select_way_to_evict_LRU row p =
    (case at (stats_LRU p) row of
       Inl e \<Rightarrow> Inl e
     | Inr row_stats \<Rightarrow>
         (case at row_stats 0 of Inl e \<Rightarrow> Inl e | Inr w \<Rightarrow> Inr (unat w)))"

text \<open>
  The number of times the body of the \<^verbatim>\<open>is_valid\<close> loop runs to its end (one
  \<^verbatim>\<open>std::swap\<close> each): the same recursion as \<open>move_to_back_loop\<close>, counting.
\<close>

function move_to_back_iterations :: "nat \<Rightarrow> uint32_t list \<Rightarrow> int \<Rightarrow> uint32_t \<Rightarrow> nat" where
  "move_to_back_iterations way row_stats i next_way =
    (if i < 0 \<or> length row_stats \<le> nat i then 0
     else if unat (row_stats ! nat i) \<noteq> way
       then Suc (move_to_back_iterations way (row_stats[nat i := next_way]) (i - 1) (row_stats ! nat i))
       else Suc 0)"
  by pat_completeness auto
termination
  by (relation "measure (\<lambda>(way, row_stats, i, next_way). nat (i + 1))") auto

declare move_to_back_iterations.simps [simp del]

text \<open>
  A sequence of \<^verbatim>\<open>update_stats\<close> calls on one LRU policy, each given as
  \<open>(way, row, is_valid)\<close>; the first exception ends the sequence.
\<close>

fun update_stats_LRU_calls :: "(nat \<times> nat \<times> bool) list \<Rightarrow> lru_policy \<Rightarrow> exn + lru_policy" where
  "update_stats_LRU_calls [] p = Inr p"
| "update_stats_LRU_calls ((way, row, is_valid) # calls) p =
    (case update_stats_LRU way row is_valid p of
       Inl e \<Rightarrow> Inl e
     | Inr p' \<Rightarrow> update_stats_LRU_calls calls p')"

text \<open>
  A row is a permutation of \<open>[0, a)\<close> when its ways, read as numbers, are the numbers
  below \<open>a\<close>, each once.  The invariant of an LRU policy: every row is a permutation of
  \<open>[0, associativity)\<close>.
\<close>

definition is_permutation :: "nat \<Rightarrow> uint32_t list \<Rightarrow> bool" where
  "is_permutation a row_stats \<longleftrightarrow> mset (map unat row_stats) = mset [0..<a]"

definition LRU_invariant :: "lru_policy \<Rightarrow> bool" where
  "LRU_invariant p \<longleftrightarrow> list_all (is_permutation (associativity_LRU p)) (stats_LRU p)"

subsection \<open>LFU\<close>

text \<open>\<^verbatim>\<open>CachePolicyLFU\<close> keeps one \<^verbatim>\<open>uint32_t\<close> counter per way and row, all 0 at first.\<close>

record lfu_policy =
  stats_LFU :: "uint32_t list list"

definition CachePolicyLFU :: "nat \<Rightarrow> nat \<Rightarrow> lfu_policy" where
  "CachePolicyLFU associativity set_count =
    \<lparr>stats_LFU = replicate set_count (replicate associativity 0)\<rparr>"

text \<open>
  \<^verbatim>\<open>CachePolicyLFU::update_stats\<close>: \<^verbatim>\<open>stats.at(row).at(way)\<close> outside any
  \<^verbatim>\<open>try\<close> block, then \<^verbatim>\<open>stat_item += 1\<close> on a \<^verbatim>\<open>uint32_t\<close> or
  \<^verbatim>\<open>stat_item = 0\<close>.
\<close>

definition update_stats_LFU :: "nat \<Rightarrow> nat \<Rightarrow> bool \<Rightarrow> lfu_policy \<Rightarrow> exn + lfu_policy" where
  "update_stats_LFU way row is_valid p =
    (case at (stats_LFU p) row of
       Inl e \<Rightarrow> Inl e
     | Inr row_stats \<Rightarrow>
         (case at row_stats way of
            Inl e \<Rightarrow> Inl e
          | Inr stat_item \<Rightarrow>
              Inr (p\<lparr>stats_LFU := (stats_LFU p)
                     [row := row_stats[way := (if is_valid then stat_item + 1 else 0)]]\<rparr>)))"

text \<open>
  The \<^verbatim>\<open>for\<close> loop of \<^verbatim>\<open>CachePolicyLFU::select_way_to_evict\<close>, entered with the current
  \<open>i\<close>, \<open>lowest\<close> (a \<^verbatim>\<open>size_t\<close>) and \<open>index\<close>; its value is the \<open>index\<close> at the loop's
  exit.  Inside the loop \<open>i\<close> is below the size, so \<^verbatim>\<open>at(i)\<close> does not throw.
\<close>

function lowest_loop :: "uint32_t list \<Rightarrow> nat \<Rightarrow> nat \<Rightarrow> nat \<Rightarrow> nat" where
  "lowest_loop row_stats i lowest index =
    (if i < length row_stats
     then (if row_stats ! i = 0 then i
           else if lowest > unat (row_stats ! i)
             then lowest_loop row_stats (Suc i) (unat (row_stats ! i)) i
             else lowest_loop row_stats (Suc i) lowest index)
     else index)"
  by pat_completeness auto
termination
  by (relation "measure (\<lambda>(row_stats, i, lowest, index). length row_stats - i)") auto

declare lowest_loop.simps [simp del]

definition select_way_to_evict_LFU :: "nat \<Rightarrow> lfu_policy \<Rightarrow> exn + nat" where
  "select_way_to_evict_LFU row p =
    catch_out_of_range
      (case at (stats_LFU p) row of
         Inl e \<Rightarrow> Inl e
       | Inr row_stats \<Rightarrow>
           (case at row_stats 0 of
              Inl e \<Rightarrow> Inl e
            | Inr first \<Rightarrow> Inr (lowest_loop row_stats 0 (unat first) 0)))"

subsection \<open>Random\<close>

text \<open>
  \<^verbatim>\<open>std::srand\<close> and \<^verbatim>\<open>std::rand\<close> belong to the C library, which keeps one generator
  for the whole process.  The library is a parameter: \<open>'g\<close> is the generator's state,
  \<open>srand\<close> gives the state set by a seed, \<open>rand\<close> the next number (never negative) and the
  state after the draw.  Every function that touches the generator takes its state and
  returns the new one.
\<close>

record 'g stdlib =
  srand :: "nat \<Rightarrow> 'g"
  rand :: "'g \<Rightarrow> nat \<times> 'g"

record rand_policy =
  associativity_RAND :: nat

text \<open>The constructor stores the associativity and calls \<^verbatim>\<open>std::srand(1)\<close>.\<close>

definition CachePolicyRAND :: "'g stdlib \<Rightarrow> nat \<Rightarrow> 'g \<Rightarrow> rand_policy \<times> 'g" where
  "CachePolicyRAND L associativity g = (\<lparr>associativity_RAND = associativity\<rparr>, srand L 1)"

text \<open>\<^verbatim>\<open>CachePolicyRAND::update_stats\<close>: all three arguments unused, no effect.\<close>

definition update_stats_RAND :: "nat \<Rightarrow> nat \<Rightarrow> bool \<Rightarrow> rand_policy \<Rightarrow> exn + rand_policy" where
  "update_stats_RAND way row is_valid p = Inr p"

text \<open>
  \<^verbatim>\<open>CachePolicyRAND::select_way_to_evict\<close>: \<^verbatim>\<open>std::rand() % associativity\<close>, the row
  unused.  The draw happens before the division, which traps on a zero divisor.
\<close>

definition select_way_to_evict_RAND ::
    "'g stdlib \<Rightarrow> nat \<Rightarrow> rand_policy \<Rightarrow> 'g \<Rightarrow> (exn + nat) \<times> 'g" where
  "select_way_to_evict_RAND L row p g =
    (case rand L g of
       (r, g') \<Rightarrow>
         (if associativity_RAND p = 0 then Inl division_by_zero
          else Inr (r mod associativity_RAND p), g'))"

text \<open>
  A run of \<^verbatim>\<open>select_way_to_evict\<close> calls on one Random policy, one call per listed row:
  the results in call order and the generator state left behind.
\<close>

fun evictions_RAND ::
    "'g stdlib \<Rightarrow> rand_policy \<Rightarrow> nat list \<Rightarrow> 'g \<Rightarrow> (exn + nat) list \<times> 'g" where
  "evictions_RAND L p [] g = ([], g)"
| "evictions_RAND L p (row # rows) g =
    (case select_way_to_evict_RAND L row p g of
       (v, g') \<Rightarrow> (case evictions_RAND L p rows g' of (vs, g'') \<Rightarrow> (v # vs, g'')))"

text \<open>A policy built by the constructor and then asked for one victim per listed row.\<close>

definition fresh_evictions_RAND ::
    "'g stdlib \<Rightarrow> nat \<Rightarrow> nat list \<Rightarrow> 'g \<Rightarrow> (exn + nat) list \<times> 'g" where
  "fresh_evictions_RAND L assoc rows g =
    (case CachePolicyRAND L assoc g of (p, g') \<Rightarrow> evictions_RAND L p rows g')"

text \<open>
  One concrete library, for evaluating examples: a linear congruential generator on 32 bits
  whose state after \<^verbatim>\<open>srand(seed)\<close> is the seed.
\<close>

definition sample_stdlib :: "nat stdlib" where
  "sample_stdlib =
    \<lparr>srand = (\<lambda>seed. seed),
     rand = (\<lambda>next. let n = (next * 1103515245 + 12345) mod 2 ^ 32
                    in (n div 65536 mod 32768, n))\<rparr>"

subsection \<open>The factory\<close>

text \<open>
  Modelled from the spec: the declaration of \<^verbatim>\<open>CacheConfig\<close> is not part of the sources
  at hand; the factory reads its four accessors \<^verbatim>\<open>enabled()\<close>,
  \<^verbatim>\<open>replacement_policy()\<close>, \<^verbatim>\<open>associativity()\<close> and \<^verbatim>\<open>set_count()\<close>, and the
  selector has the three values the \<^verbatim>\<open>switch\<close> names.
\<close>

datatype ReplacementPolicy = RP_RAND | RP_LRU | RP_LFU

record CacheConfig =
  enabled :: bool
  replacement_policy :: ReplacementPolicy
  associativity :: nat
  set_count :: nat

text \<open>The object behind a \<^verbatim>\<open>std::unique_ptr<CachePolicy>\<close>: one of the three subclasses.\<close>

datatype CachePolicy =
    RAND rand_policy
  | LRU lru_policy
  | LFU lfu_policy

text \<open>
  \<^verbatim>\<open>CachePolicy::get_policy_instance\<close>; \<open>None\<close> is the null pointer.  Only the Random
  constructor touches the generator.
\<close>

definition get_policy_instance :: "'g stdlib \<Rightarrow> CacheConfig \<Rightarrow> 'g \<Rightarrow> CachePolicy option \<times> 'g" where
  "get_policy_instance L config g =
    (if enabled config then
       (case replacement_policy config of
          RP_RAND \<Rightarrow>
            (case CachePolicyRAND L (associativity config) g of (p, g') \<Rightarrow> (Some (RAND p), g'))
        | RP_LRU \<Rightarrow> (Some (LRU (CachePolicyLRU (associativity config) (set_count config))), g)
        | RP_LFU \<Rightarrow> (Some (LFU (CachePolicyLFU (associativity config) (set_count config))), g))
     else (None, g))"

text \<open>The subclass of a policy object, as a selector value.\<close>

fun variant :: "CachePolicy \<Rightarrow> ReplacementPolicy" where
  "variant (RAND p) = RP_RAND"
| "variant (LRU p) = RP_LRU"
| "variant (LFU p) = RP_LFU"

section \<open>Facts about the taxonomy\<close>

lemma parent_simps:
  "parent Input = None"
  "parent Runtime = None"
  "parent UnsupportedInstruction = Some Runtime"
  "parent UnsupportedAluOperation = Some Runtime"
  "parent Overflow = Some Runtime"
  "parent UnalignedJump = Some Runtime"
  "parent UnknownMemoryControl = Some Runtime"
  "parent OutOfMemoryAccess = Some Runtime"
  "parent Sanity = None"
  "parent SyscallUnknown = Some Runtime"
  by (simp_all add: parent_def SIMULATOR_EXCEPTIONS_def)

lemma ancestors_simps:
  "ancestors Input = []"
  "ancestors Runtime = []"
  "ancestors Sanity = []"
  "ancestors UnsupportedInstruction = [Runtime]"
  "ancestors UnsupportedAluOperation = [Runtime]"
  "ancestors Overflow = [Runtime]"
  "ancestors UnalignedJump = [Runtime]"
  "ancestors UnknownMemoryControl = [Runtime]"
  "ancestors OutOfMemoryAccess = [Runtime]"
  "ancestors SyscallUnknown = [Runtime]"
  by (simp_all add: ancestors.simps parent_simps)

lemma children_simps:
  "children Runtime = [UnsupportedInstruction, UnsupportedAluOperation, Overflow, UnalignedJump,
      UnknownMemoryControl, OutOfMemoryAccess, SyscallUnknown]"
  "children Input = []" "children Sanity = []"
  "children UnsupportedInstruction = []"
  "children UnsupportedAluOperation = []"
  "children Overflow = []"
  "children UnalignedJump = []"
  "children UnknownMemoryControl = []"
  "children OutOfMemoryAccess = []"
  "children SyscallUnknown = []"
  by (simp_all add: children_def SIMULATOR_EXCEPTIONS_def)

section \<open>Facts about the LRU loops\<close>

text \<open>
  In both loops the row splits around the index: what the loop has passed already holds its
  final content, the rest is still to be visited.  When the addressed way \<open>c\<close> lies in the
  unvisited part, the loop stops there, having moved every way it passed by one place; when
  it does not, the loop runs off the row and \<^verbatim>\<open>at\<close> throws.
\<close>

lemma move_to_back_loop_found:
  "unat c = way \<Longrightarrow> \<forall>x\<in>set Q. unat x \<noteq> way \<Longrightarrow>
   move_to_back_loop way (P @ c # Q @ B) (int (length P + length Q)) n = Inr (P @ Q @ n # B)"
proof (induction Q arbitrary: B n rule: rev_induct)
  case Nil
  then show ?case
    by (subst move_to_back_loop.simps) (simp add: nth_append)
next
  case (snoc x Q)
  have idx: "(P @ c # (Q @ [x]) @ B) ! (length P + (length Q + 1)) = x"
    by (simp add: nth_append)
  have upd: "(P @ c # (Q @ [x]) @ B)[length P + (length Q + 1) := n] = P @ c # Q @ n # B"
    by (simp add: list_update_append)
  have ne: "unat x \<noteq> way" using snoc.prems by simp
  have "move_to_back_loop way (P @ c # (Q @ [x]) @ B) (int (length P + length (Q @ [x]))) n
        = move_to_back_loop way (P @ c # Q @ n # B) (int (length P + length Q)) x"
    using ne idx upd
    by (subst move_to_back_loop.simps) (simp add: nat_add_distrib)
  also have "\<dots> = Inr (P @ Q @ x # n # B)"
    using snoc.IH [of "n # B" x] snoc.prems by simp
  finally show ?case by simp
qed

lemma move_to_back_loop_lost:
  "\<forall>x\<in>set R. unat x \<noteq> way \<Longrightarrow>
   move_to_back_loop way (R @ B) (int (length R) - 1) n = Inl std_out_of_range"
proof (induction R arbitrary: B n rule: rev_induct)
  case Nil
  then show ?case
    by (subst move_to_back_loop.simps) simp
next
  case (snoc x R)
  have "move_to_back_loop way ((R @ [x]) @ B) (int (length (R @ [x])) - 1) n
        = move_to_back_loop way (R @ n # B) (int (length R) - 1) x"
    using snoc.prems
    by (subst move_to_back_loop.simps) (simp add: nth_append list_update_append)
  then show ?case using snoc.IH [of "n # B" x] snoc.prems by simp
qed

lemma move_to_front_loop_found:
  "unat c = way \<Longrightarrow> \<forall>x\<in>set Q. unat x \<noteq> way \<Longrightarrow>
   move_to_front_loop way (A @ Q @ c # B) (length A) n = Inr (A @ n # Q @ B)"
proof (induction Q arbitrary: A n)
  case Nil
  then show ?case
    by (subst move_to_front_loop.simps) (simp add: nth_append list_update_append)
next
  case (Cons x Q)
  have "move_to_front_loop way (A @ (x # Q) @ c # B) (length A) n
        = move_to_front_loop way ((A @ [n]) @ Q @ c # B) (length (A @ [n])) x"
    using Cons.prems
    by (subst move_to_front_loop.simps) (simp add: nth_append list_update_append)
  then show ?case using Cons.IH [of "A @ [n]" x] Cons.prems by simp
qed

lemma move_to_front_loop_lost:
  "\<forall>x\<in>set R. unat x \<noteq> way \<Longrightarrow>
   move_to_front_loop way (A @ R) (length A) n = Inl std_out_of_range"
proof (induction R arbitrary: A n)
  case Nil
  then show ?case
    by (subst move_to_front_loop.simps) simp
next
  case (Cons x R)
  have "move_to_front_loop way (A @ x # R) (length A) n
        = move_to_front_loop way ((A @ [n]) @ R) (length (A @ [n])) x"
    using Cons.prems
    by (subst move_to_front_loop.simps) (simp add: nth_append list_update_append)
  then show ?case using Cons.IH [of "A @ [n]" x] Cons.prems by simp
qed

lemma move_to_back_loop_raises:
  "move_to_back_loop way row_stats i next_way = Inl e \<Longrightarrow> e = std_out_of_range"
proof (induction way row_stats i next_way rule: move_to_back_loop.induct)
  case (1 way row_stats i next_way)
  from "1.prems" "1.IH" show ?case
    by (subst (asm) move_to_back_loop.simps) (auto split: if_splits)
qed

lemma move_to_front_loop_raises:
  "move_to_front_loop way row_stats i next_way = Inl e \<Longrightarrow> e = std_out_of_range"
proof (induction way row_stats i next_way rule: move_to_front_loop.induct)
  case (1 way row_stats i next_way)
  from "1.prems" "1.IH" show ?case
    by (subst (asm) move_to_front_loop.simps) (auto split: if_splits)
qed

lemma move_to_back_iterations_le:
  "move_to_back_iterations way row_stats i next_way \<le> nat (i + 1)"
proof (induction way row_stats i next_way rule: move_to_back_iterations.induct)
  case (1 way row_stats i next_way)
  show ?case
  proof (cases "i < 0 \<or> length row_stats \<le> nat i")
    case True
    then show ?thesis by (subst move_to_back_iterations.simps) simp
  next
    case False
    show ?thesis
    proof (cases "unat (row_stats ! nat i) = way")
      case True
      with False show ?thesis by (subst move_to_back_iterations.simps) auto
    next
      case ne: False
      from "1.IH" [OF False ne]
      have "move_to_back_iterations way (row_stats[nat i := next_way]) (i - 1) (row_stats ! nat i)
            \<le> nat i" by simp
      with False ne show ?thesis by (subst move_to_back_iterations.simps) auto
    qed
  qed
qed

section \<open>Facts about permutation rows\<close>

lemma is_permutation_length: "is_permutation a row_stats \<Longrightarrow> length row_stats = a"
  unfolding is_permutation_def
  by (metis length_map length_upt diff_zero size_mset)

lemma is_permutation_distinct: "is_permutation a row_stats \<Longrightarrow> distinct (map unat row_stats)"
  unfolding is_permutation_def
  by (metis distinct_upt mset_eq_imp_distinct_iff)

lemma is_permutation_set: "is_permutation a row_stats \<Longrightarrow> unat ` set row_stats = {0..<a}"
  unfolding is_permutation_def
  by (metis atLeastLessThan_upt mset_eq_setD set_map)

lemma is_permutation_le: "is_permutation a row_stats \<Longrightarrow> a \<le> 2 ^ 32"
proof -
  assume p: "is_permutation a row_stats"
  have "n < 2 ^ 32" if "n < a" for n
  proof -
    from that is_permutation_set [OF p] have "n \<in> unat ` set row_stats" by simp
    then obtain w :: uint32_t where "n = unat w" by blast
    then show ?thesis using unsigned_less [of w, where 'a = nat] by simp
  qed
  then show ?thesis
    by (meson linorder_not_le order_less_irrefl)
qed

lemma is_permutation_split:
  assumes "is_permutation a row_stats" and "way < a"
  shows "\<exists>P c Q. row_stats = P @ c # Q \<and> unat c = way
           \<and> (\<forall>x\<in>set P. unat x \<noteq> way) \<and> (\<forall>x\<in>set Q. unat x \<noteq> way)"
proof -
  from assms have "way \<in> unat ` set row_stats"
    by (simp add: is_permutation_set)
  then obtain c where c: "c \<in> set row_stats" "unat c = way" by auto
  then obtain P Q where row: "row_stats = P @ c # Q"
    by (meson split_list)
  from is_permutation_distinct [OF assms(1)] row c(2)
  have "(\<forall>x\<in>set P. unat x \<noteq> way) \<and> (\<forall>x\<in>set Q. unat x \<noteq> way)"
    by (auto simp: image_iff)
  with row c(2) show ?thesis by blast
qed

lemma is_permutation_absent:
  "is_permutation a row_stats \<Longrightarrow> a \<le> way \<Longrightarrow> \<forall>x\<in>set row_stats. unat x \<noteq> way"
proof
  fix x
  assume p: "is_permutation a row_stats" and le: "a \<le> way" and x: "x \<in> set row_stats"
  from x have "unat x \<in> unat ` set row_stats" by (rule imageI)
  with is_permutation_set [OF p] have "unat x < a" by simp
  with le show "unat x \<noteq> way" by simp
qed

lemma is_permutation_initial: "a \<le> 2 ^ 32 \<Longrightarrow> is_permutation a (map of_nat [0..<a])"
proof -
  assume a: "a \<le> 2 ^ 32"
  have "map unat (map of_nat [0..<a] :: uint32_t list) = [0..<a]"
  proof (rule nth_equalityI)
    show "length (map unat (map of_nat [0..<a] :: uint32_t list)) = length [0..<a]" by simp
  next
    fix i
    assume "i < length (map unat (map of_nat [0..<a] :: uint32_t list))"
    then have "i < 2 ^ 32" "i < a" using a by simp_all
    then show "map unat (map of_nat [0..<a] :: uint32_t list) ! i = [0..<a] ! i"
      by (simp add: unat_of_nat)
  qed
  then show ?thesis by (simp add: is_permutation_def)
qed

lemma is_permutation_moved:
  assumes perm: "is_permutation a row_stats" and way: "way < a"
  shows "is_permutation a (filter (\<lambda>x. unat x \<noteq> way) row_stats @ [of_nat way])"
    and "is_permutation a (of_nat way # filter (\<lambda>x. unat x \<noteq> way) row_stats)"
proof -
  from is_permutation_split [OF perm way] obtain P c Q where
    row: "row_stats = P @ c # Q" and c: "unat c = way"
    and P: "\<forall>x\<in>set P. unat x \<noteq> way" and Q: "\<forall>x\<in>set Q. unat x \<noteq> way"
    by blast
  from P Q c have flt: "filter (\<lambda>x. unat x \<noteq> way) row_stats = P @ Q"
    by (simp add: row)
  from c have w: "(of_nat way :: uint32_t) = c" by auto
  from perm have "mset (map unat (P @ Q @ [c])) = mset [0..<a]"
    by (simp add: is_permutation_def row)
  then show "is_permutation a (filter (\<lambda>x. unat x \<noteq> way) row_stats @ [of_nat way])"
    by (simp add: is_permutation_def flt w)
  from perm have "mset (map unat (c # P @ Q)) = mset [0..<a]"
    by (simp add: is_permutation_def row)
  then show "is_permutation a (of_nat way # filter (\<lambda>x. unat x \<noteq> way) row_stats)"
    by (simp add: is_permutation_def flt w)
qed

lemma move_to_back_row:
  assumes perm: "is_permutation a row_stats" and way: "way < a"
  shows "move_to_back_loop way row_stats (int a - 1) (of_nat way)
         = Inr (filter (\<lambda>x. unat x \<noteq> way) row_stats @ [of_nat way])"
proof -
  from is_permutation_split [OF perm way] obtain P c Q where
    row: "row_stats = P @ c # Q" and c: "unat c = way"
    and P: "\<forall>x\<in>set P. unat x \<noteq> way" and Q: "\<forall>x\<in>set Q. unat x \<noteq> way"
    by blast
  from is_permutation_length [OF perm] row have a: "int a - 1 = int (length P + length Q)"
    by simp
  from P Q c have flt: "filter (\<lambda>x. unat x \<noteq> way) row_stats = P @ Q"
    by (simp add: row)
  from move_to_back_loop_found [OF c Q, of P "[]" "of_nat way"]
  show ?thesis by (simp add: row [symmetric] a flt)
qed

lemma move_to_front_row:
  assumes perm: "is_permutation a row_stats" and way: "way < a"
  shows "move_to_front_loop way row_stats 0 (of_nat way)
         = Inr (of_nat way # filter (\<lambda>x. unat x \<noteq> way) row_stats)"
proof -
  from is_permutation_split [OF perm way] obtain P c Q where
    row: "row_stats = P @ c # Q" and c: "unat c = way"
    and P: "\<forall>x\<in>set P. unat x \<noteq> way" and Q: "\<forall>x\<in>set Q. unat x \<noteq> way"
    by blast
  from P Q c have flt: "filter (\<lambda>x. unat x \<noteq> way) row_stats = P @ Q"
    by (simp add: row)
  from move_to_front_loop_found [OF c P, of "[]" Q "of_nat way"]
  show ?thesis by (simp add: row [symmetric] flt)
qed

section \<open>Facts about the LRU policy\<close>

lemma catch_out_of_range_simps:
  "catch_out_of_range (Inr x) = Inr x"
  "catch_out_of_range (Inl std_out_of_range) = Inl (SimulatorException Sanity)"
  by (simp_all add: catch_out_of_range_def)

lemma LRU_invariant_row:
  "LRU_invariant p \<Longrightarrow> row < length (stats_LRU p)
   \<Longrightarrow> is_permutation (associativity_LRU p) (stats_LRU p ! row)"
  by (simp add: LRU_invariant_def list_all_length)

lemma update_stats_LRU_in_range:
  assumes inv: "LRU_invariant p" and row: "row < length (stats_LRU p)"
    and way: "way < associativity_LRU p"
  shows "update_stats_LRU way row is_valid p =
    Inr (p\<lparr>stats_LRU := (stats_LRU p)[row :=
          (if is_valid
           then filter (\<lambda>x. unat x \<noteq> way) (stats_LRU p ! row) @ [of_nat way]
           else of_nat way # filter (\<lambda>x. unat x \<noteq> way) (stats_LRU p ! row))]\<rparr>)"
  using row move_to_back_row [OF LRU_invariant_row [OF inv row] way]
    move_to_front_row [OF LRU_invariant_row [OF inv row] way]
  by (simp add: update_stats_LRU_def at_def catch_out_of_range_simps)

lemma update_stats_LRU_invariant:
  assumes inv: "LRU_invariant p" and row: "row < length (stats_LRU p)"
    and way: "way < associativity_LRU p"
    and upd: "update_stats_LRU way row is_valid p = Inr p'"
  shows "LRU_invariant p' \<and> associativity_LRU p' = associativity_LRU p
         \<and> length (stats_LRU p') = length (stats_LRU p)"
proof -
  note perm = is_permutation_moved [OF LRU_invariant_row [OF inv row] way]
  from upd update_stats_LRU_in_range [OF inv row way, of is_valid]
  have p': "p' = p\<lparr>stats_LRU := (stats_LRU p)[row :=
          (if is_valid
           then filter (\<lambda>x. unat x \<noteq> way) (stats_LRU p ! row) @ [of_nat way]
           else of_nat way # filter (\<lambda>x. unat x \<noteq> way) (stats_LRU p ! row))]\<rparr>"
    by simp
  have "is_permutation (associativity_LRU p) (stats_LRU p' ! r)" if "r < length (stats_LRU p)" for r
    using that perm LRU_invariant_row [OF inv that]
    by (cases "r = row") (simp_all add: p')
  then show ?thesis
    by (simp add: LRU_invariant_def list_all_length p')
qed

lemma CachePolicyLRU_invariant:
  "assoc \<le> 2 ^ 32 \<Longrightarrow> LRU_invariant (CachePolicyLRU assoc sets)"
  by (simp add: LRU_invariant_def CachePolicyLRU_def list_all_length is_permutation_initial)

lemma update_stats_LRU_calls_invariant:
  assumes "LRU_invariant p"
    and "\<forall>(way, row, is_valid)\<in>set calls. way < associativity_LRU p \<and> row < length (stats_LRU p)"
  shows "\<exists>p'. update_stats_LRU_calls calls p = Inr p' \<and> LRU_invariant p'
           \<and> associativity_LRU p' = associativity_LRU p
           \<and> length (stats_LRU p') = length (stats_LRU p)"
  using assms
proof (induction calls arbitrary: p)
  case Nil
  then show ?case by simp
next
  case (Cons call calls)
  obtain way row is_valid where call: "call = (way, row, is_valid)"
    by (cases call) auto
  from Cons.prems(2) call have way: "way < associativity_LRU p" and row: "row < length (stats_LRU p)"
    by auto
  from update_stats_LRU_in_range [OF Cons.prems(1) row way, of is_valid]
  obtain p1 where p1: "update_stats_LRU way row is_valid p = Inr p1" by blast
  note step = update_stats_LRU_invariant [OF Cons.prems(1) row way p1]
  from Cons.prems(2) step
  have "\<forall>(way, row, is_valid)\<in>set calls. way < associativity_LRU p1 \<and> row < length (stats_LRU p1)"
    by auto
  from Cons.IH [OF _ this] step obtain p' where
    "update_stats_LRU_calls calls p1 = Inr p'" "LRU_invariant p'"
    "associativity_LRU p' = associativity_LRU p1" "length (stats_LRU p') = length (stats_LRU p1)"
    by blast
  with step p1 call show ?case by simp
qed

lemma select_way_to_evict_LRU_front:
  "row < length (stats_LRU p) \<Longrightarrow> stats_LRU p ! row = w # ws
   \<Longrightarrow> select_way_to_evict_LRU row p = Inr (unat w)"
  by (simp add: select_way_to_evict_LRU_def at_def)

lemma update_stats_LRU_raises:
  "update_stats_LRU way row is_valid p = Inl e \<Longrightarrow> e = SimulatorException Sanity"
  by (auto simp: update_stats_LRU_def at_def catch_out_of_range_def
      split: if_splits sum.splits exn.splits
      dest: move_to_back_loop_raises move_to_front_loop_raises)

lemma update_stats_LRU_row_out_of_range:
  "length (stats_LRU p) \<le> row \<Longrightarrow>
   update_stats_LRU way row is_valid p = Inl (SimulatorException Sanity)"
  by (simp add: update_stats_LRU_def at_def catch_out_of_range_simps)

lemma update_stats_LRU_way_out_of_range:
  assumes inv: "LRU_invariant p" and row: "row < length (stats_LRU p)"
    and way: "associativity_LRU p \<le> way"
  shows "update_stats_LRU way row is_valid p = Inl (SimulatorException Sanity)"
proof -
  note perm = LRU_invariant_row [OF inv row]
  note absent = is_permutation_absent [OF perm way]
  from move_to_back_loop_lost [OF absent, of "[]" "of_nat way"] is_permutation_length [OF perm]
  have bk: "move_to_back_loop way (stats_LRU p ! row) (int (associativity_LRU p) - 1) (of_nat way)
              = Inl std_out_of_range" by simp
  from move_to_front_loop_lost [OF absent, of "[]" "of_nat way"]
  have fr: "move_to_front_loop way (stats_LRU p ! row) 0 (of_nat way) = Inl std_out_of_range"
    by simp
  from row bk fr show ?thesis
    by (simp add: update_stats_LRU_def at_def catch_out_of_range_simps)
qed

section \<open>Facts about the LFU policy\<close>

text \<open>
  The invariant of the scan: \<open>index\<close> is the first position of the least counter among
  the positions below \<open>i\<close>, none of which holds 0.
\<close>

lemma lowest_loop_first_minimum:
  assumes "index \<le> i" and "index < length row_stats" and "lowest = unat (row_stats ! index)"
    and "\<forall>j<i. row_stats ! j \<noteq> 0 \<and> row_stats ! index \<le> row_stats ! j"
    and "\<forall>j<index. row_stats ! index < row_stats ! j"
  shows "lowest_loop row_stats i lowest index < length row_stats
    \<and> (\<forall>j<length row_stats. row_stats ! lowest_loop row_stats i lowest index \<le> row_stats ! j)
    \<and> (\<forall>j<lowest_loop row_stats i lowest index.
          row_stats ! lowest_loop row_stats i lowest index < row_stats ! j)"
  using assms
proof (induction row_stats i lowest index rule: lowest_loop.induct)
  case (1 row_stats i lowest index)
  show ?case
  proof (cases "i < length row_stats")
    case False
    then have res: "lowest_loop row_stats i lowest index = index"
      by (subst lowest_loop.simps) simp
    from False "1.prems" show ?thesis
      unfolding res by simp
  next
    case True
    show ?thesis
    proof (cases "row_stats ! i = 0")
      case zero: True
      with True have res: "lowest_loop row_stats i lowest index = i"
        by (subst lowest_loop.simps) simp
      have "0 < row_stats ! j" if "j < i" for j
        using "1.prems"(4) that by (simp add: word_greater_zero_iff)
      with True zero show ?thesis
        unfolding res by simp
    next
      case nz: False
      show ?thesis
      proof (cases "lowest > unat (row_stats ! i)")
        case lower: True
        with True nz have res: "lowest_loop row_stats i lowest index
            = lowest_loop row_stats (Suc i) (unat (row_stats ! i)) i"
          by (subst lowest_loop.simps) simp
        from lower "1.prems"(3) have lt: "row_stats ! i < row_stats ! index"
          by (simp add: word_less_nat_alt)
        have a: "\<forall>j<Suc i. row_stats ! j \<noteq> 0 \<and> row_stats ! i \<le> row_stats ! j"
          using "1.prems"(4) nz lt by (auto simp: less_Suc_eq)
        have b: "\<forall>j<i. row_stats ! i < row_stats ! j"
          using "1.prems"(4) lt by auto
        from "1.IH"(1) [OF True nz lower _ True refl a b]
        show ?thesis unfolding res by simp
      next
        case keep: False
        with True nz have res: "lowest_loop row_stats i lowest index
            = lowest_loop row_stats (Suc i) lowest index"
          by (subst lowest_loop.simps) simp
        from keep "1.prems"(3) have le: "row_stats ! index \<le> row_stats ! i"
          by (simp add: word_le_nat_alt)
        have a: "\<forall>j<Suc i. row_stats ! j \<noteq> 0 \<and> row_stats ! index \<le> row_stats ! j"
          using "1.prems"(4) nz le by (auto simp: less_Suc_eq)
        from "1.IH"(2) [OF True nz keep _ "1.prems"(2,3) a "1.prems"(5)] "1.prems"(1)
        show ?thesis unfolding res by simp
      qed
    qed
  qed
qed

lemma select_way_to_evict_LFU_first_minimum:
  assumes row: "row < length (stats_LFU p)" and ne: "stats_LFU p ! row \<noteq> []"
  shows "\<exists>k. select_way_to_evict_LFU row p = Inr k \<and> k < length (stats_LFU p ! row)
    \<and> (\<forall>j<length (stats_LFU p ! row). stats_LFU p ! row ! k \<le> stats_LFU p ! row ! j)
    \<and> (\<forall>j<k. stats_LFU p ! row ! k < stats_LFU p ! row ! j)"
proof -
  let ?r = "stats_LFU p ! row"
  from ne have len: "0 < length ?r" by simp
  have sel: "select_way_to_evict_LFU row p = Inr (lowest_loop ?r 0 (unat (?r ! 0)) 0)"
    using row len by (simp add: select_way_to_evict_LFU_def at_def catch_out_of_range_simps)
  from lowest_loop_first_minimum [of 0 0 ?r "unat (?r ! 0)"] len sel
  show ?thesis by simp
qed

lemma select_way_to_evict_LFU_zero:
  assumes row: "row < length (stats_LFU p)" and way: "way < length (stats_LFU p ! row)"
    and zero: "stats_LFU p ! row ! way = 0"
  shows "\<exists>k. select_way_to_evict_LFU row p = Inr k \<and> k \<le> way
    \<and> stats_LFU p ! row ! k = 0 \<and> (\<forall>j<k. stats_LFU p ! row ! j \<noteq> 0)"
proof -
  from way have ne: "stats_LFU p ! row \<noteq> []" by auto
  from select_way_to_evict_LFU_first_minimum [OF row ne] obtain k where
    k: "select_way_to_evict_LFU row p = Inr k"
    and least: "\<forall>j<length (stats_LFU p ! row). stats_LFU p ! row ! k \<le> stats_LFU p ! row ! j"
    and first: "\<forall>j<k. stats_LFU p ! row ! k < stats_LFU p ! row ! j"
    by blast
  from least way zero have kz: "stats_LFU p ! row ! k = 0"
    by (metis word_le_0_iff)
  have "k \<le> way"
  proof (rule ccontr)
    assume "\<not> k \<le> way"
    with first have "stats_LFU p ! row ! k < stats_LFU p ! row ! way" by simp
    with zero show False by simp
  qed
  moreover have "\<forall>j<k. stats_LFU p ! row ! j \<noteq> 0"
    using first kz by (metis word_gt_0)
  ultimately show ?thesis using k kz by blast
qed

lemma update_stats_LFU_in_range:
  "row < length (stats_LFU p) \<Longrightarrow> way < length (stats_LFU p ! row) \<Longrightarrow>
   update_stats_LFU way row is_valid p =
     Inr (p\<lparr>stats_LFU := (stats_LFU p)
            [row := (stats_LFU p ! row)
               [way := (if is_valid then stats_LFU p ! row ! way + 1 else 0)]]\<rparr>)"
  by (simp add: update_stats_LFU_def at_def)

lemma select_way_to_evict_LFU_raises:
  "select_way_to_evict_LFU row p = Inl e \<Longrightarrow> e = SimulatorException Sanity"
  by (auto simp: select_way_to_evict_LFU_def at_def catch_out_of_range_def
      split: if_splits sum.splits exn.splits)

lemma select_way_to_evict_LFU_row_out_of_range:
  "length (stats_LFU p) \<le> row \<Longrightarrow>
   select_way_to_evict_LFU row p = Inl (SimulatorException Sanity)"
  by (simp add: select_way_to_evict_LFU_def at_def catch_out_of_range_simps)

section \<open>The claims\<close>

subsection \<open>C1: out-of-range arguments\<close>

text \<open>
  C1, as stated, fails.  With a row or a way out of range, the Random policy's
  \<^verbatim>\<open>update_stats\<close> and \<^verbatim>\<open>select_way_to_evict\<close> return normally (it keeps no
  row count and reads neither argument), and the LFU policy's \<^verbatim>\<open>update_stats\<close> and the
  LRU policy's \<^verbatim>\<open>select_way_to_evict\<close> let \<^verbatim>\<open>std::out_of_range\<close> escape, which
  is not a Sanity exception.
\<close>

theorem out_of_range_counterexample:
  "update_stats_RAND 7 9 True \<lparr>associativity_RAND = 2\<rparr> = Inr \<lparr>associativity_RAND = 2\<rparr>
   \<and> fst (select_way_to_evict_RAND sample_stdlib 9 \<lparr>associativity_RAND = 2\<rparr> 1) = Inr 0
   \<and> update_stats_LFU 0 4 True (CachePolicyLFU 2 4) = Inl std_out_of_range
   \<and> update_stats_LFU 2 0 True (CachePolicyLFU 2 4) = Inl std_out_of_range
   \<and> select_way_to_evict_LRU 4 (CachePolicyLRU 2 4) = Inl std_out_of_range"
  by (simp add: update_stats_RAND_def select_way_to_evict_RAND_def sample_stdlib_def
      update_stats_LFU_def CachePolicyLFU_def select_way_to_evict_LRU_def CachePolicyLRU_def at_def)

text \<open>
  C1, amended.  The LRU policy's \<^verbatim>\<open>update_stats\<close> throws a Sanity exception when the
  row is not below the row count, and, on a policy whose rows are permutations, when the row
  is in range and the way is not below the associativity; whatever it throws is a Sanity
  exception.  The LFU policy's \<^verbatim>\<open>select_way_to_evict\<close> throws a Sanity exception when
  the row is not below the row count, and whatever it throws is a Sanity exception.  The
  Random policy checks nothing: \<^verbatim>\<open>update_stats\<close> returns with the policy unchanged for
  every way and row, and \<^verbatim>\<open>select_way_to_evict\<close> returns the draw reduced modulo the
  (positive) associativity for every row.
\<close>

theorem out_of_range_faults:
  "(length (stats_LRU p) \<le> row \<longrightarrow>
      update_stats_LRU way row is_valid p = Inl (SimulatorException Sanity))
   \<and> (LRU_invariant p \<and> row < length (stats_LRU p) \<and> associativity_LRU p \<le> way \<longrightarrow>
      update_stats_LRU way row is_valid p = Inl (SimulatorException Sanity))
   \<and> (update_stats_LRU way row is_valid p = Inl e \<longrightarrow> e = SimulatorException Sanity)
   \<and> (length (stats_LFU q) \<le> row \<longrightarrow>
      select_way_to_evict_LFU row q = Inl (SimulatorException Sanity))
   \<and> (select_way_to_evict_LFU row q = Inl e \<longrightarrow> e = SimulatorException Sanity)
   \<and> update_stats_RAND way row is_valid r = Inr r
   \<and> (0 < associativity_RAND r \<longrightarrow>
      fst (select_way_to_evict_RAND L row r g) = Inr (fst (rand L g) mod associativity_RAND r))"
  using update_stats_LRU_row_out_of_range [of p row way is_valid]
    update_stats_LRU_way_out_of_range [of p row way is_valid]
    update_stats_LRU_raises [of way row is_valid p e]
    select_way_to_evict_LFU_row_out_of_range [of q row]
    select_way_to_evict_LFU_raises [of row q e]
  by (simp add: update_stats_RAND_def select_way_to_evict_RAND_def split: prod.splits)

theorem out_of_range_faults_witness:
  "update_stats_LRU 0 2 True (CachePolicyLRU 2 2) = Inl (SimulatorException Sanity)
   \<and> update_stats_LRU 2 1 False (CachePolicyLRU 2 2) = Inl (SimulatorException Sanity)
   \<and> select_way_to_evict_LFU 2 (CachePolicyLFU 2 2) = Inl (SimulatorException Sanity)
   \<and> fst (select_way_to_evict_RAND sample_stdlib 2 \<lparr>associativity_RAND = 2\<rparr> 1) = Inr 0"
proof -
  have inv: "LRU_invariant (CachePolicyLRU 2 2)"
    by (rule CachePolicyLRU_invariant) simp
  have len: "length (stats_LRU (CachePolicyLRU 2 2)) = 2" "associativity_LRU (CachePolicyLRU 2 2) = 2"
    "length (stats_LFU (CachePolicyLFU 2 2)) = 2"
    by (simp_all add: CachePolicyLRU_def CachePolicyLFU_def)
  have r: "fst (rand sample_stdlib 1) mod 2 = 0"
    by (simp add: sample_stdlib_def)
  from out_of_range_faults [of "CachePolicyLRU 2 2" 2 0 True "SimulatorException Sanity"
      "CachePolicyLFU 2 2" "\<lparr>associativity_RAND = 2\<rparr>" sample_stdlib 1]
    out_of_range_faults [of "CachePolicyLRU 2 2" 1 2 False "SimulatorException Sanity"
      "CachePolicyLFU 2 2" "\<lparr>associativity_RAND = 2\<rparr>" sample_stdlib 1]
    inv len r
  show ?thesis by simp
qed

subsection \<open>C2: the LRU order is a permutation\<close>

text \<open>
  C2.  Build an LRU policy and run any sequence of \<^verbatim>\<open>update_stats\<close> calls whose ways
  are below the associativity and whose rows are below the row count (the empty sequence is
  the moment after construction).  No call throws, the policy keeps its rows, and every row
  is a permutation of \<open>[0, associativity)\<close>.  The ways are stored as \<^verbatim>\<open>uint32_t\<close>, so
  the associativity is taken within that type's range of \<open>2 ^ 32\<close> values; a row of
  \<^verbatim>\<open>uint32_t\<close> cannot be a permutation of more numbers (\<open>is_permutation_le\<close>).
\<close>

theorem LRU_order_is_permutation:
  assumes "assoc \<le> 2 ^ 32"
    and "\<forall>(way, row, is_valid)\<in>set calls. way < assoc \<and> row < sets"
  shows "\<exists>p. update_stats_LRU_calls calls (CachePolicyLRU assoc sets) = Inr p
           \<and> length (stats_LRU p) = sets
           \<and> (\<forall>row < sets. mset (map unat (stats_LRU p ! row)) = mset [0..<assoc])"
proof -
  let ?p0 = "CachePolicyLRU assoc sets"
  have p0: "associativity_LRU ?p0 = assoc" "length (stats_LRU ?p0) = sets"
    by (simp_all add: CachePolicyLRU_def)
  from update_stats_LRU_calls_invariant [OF CachePolicyLRU_invariant [OF assms(1)], of calls sets]
    assms(2) p0
  obtain p where p: "update_stats_LRU_calls calls ?p0 = Inr p" "LRU_invariant p"
    "associativity_LRU p = assoc" "length (stats_LRU p) = sets"
    by auto
  from LRU_invariant_row [OF p(2)] p(3,4)
  have "\<forall>row < sets. mset (map unat (stats_LRU p ! row)) = mset [0..<assoc]"
    by (simp add: is_permutation_def)
  with p show ?thesis by blast
qed

theorem LRU_order_is_permutation_witness:
  "\<exists>p. update_stats_LRU_calls [(0, 0, True), (1, 0, True), (1, 1, False)] (CachePolicyLRU 2 2) = Inr p
     \<and> length (stats_LRU p) = 2
     \<and> mset (map unat (stats_LRU p ! 0)) = mset [0..<2]
     \<and> mset (map unat (stats_LRU p ! 1)) = mset [0..<2]"
  using LRU_order_is_permutation [of 2 "[(0, 0, True), (1, 0, True), (1, 1, False)]" 2]
  by auto

subsection \<open>C4: a hit moves the way to the back\<close>

text \<open>
  C4.  On an LRU policy whose rows are permutations (every policy reached from the
  constructor by in-range calls is one), \<^verbatim>\<open>update_stats(way, row, true)\<close> with the row
  and the way in range returns normally; the row becomes its old content without the way,
  in the old order, followed by the way (so the ways behind it each move down one place and
  the others stay), and no other row changes.  The loop body runs at most
  \<open>associativity\<close> times.  Afterwards \<^verbatim>\<open>select_way_to_evict(row)\<close> returns a way
  other than the one just used, unless the associativity is 1, when it returns that way.
\<close>

theorem LRU_hit_moves_way_to_back:
  assumes inv: "LRU_invariant p" and row: "row < length (stats_LRU p)"
    and way: "way < associativity_LRU p"
  shows "\<exists>p'. update_stats_LRU way row True p = Inr p'
           \<and> associativity_LRU p' = associativity_LRU p
           \<and> stats_LRU p' = (stats_LRU p)
                [row := filter (\<lambda>x. unat x \<noteq> way) (stats_LRU p ! row) @ [of_nat way]]
           \<and> unat (last (stats_LRU p' ! row)) = way
           \<and> move_to_back_iterations way (stats_LRU p ! row) (int (associativity_LRU p) - 1)
                (of_nat way) \<le> associativity_LRU p
           \<and> (associativity_LRU p \<noteq> 1 \<longrightarrow>
                (\<exists>v. select_way_to_evict_LRU row p' = Inr v \<and> v \<noteq> way))
           \<and> (associativity_LRU p = 1 \<longrightarrow> select_way_to_evict_LRU row p' = Inr way)"
proof -
  let ?rest = "filter (\<lambda>x. unat x \<noteq> way) (stats_LRU p ! row)"
  let ?p' = "p\<lparr>stats_LRU := (stats_LRU p)[row := ?rest @ [of_nat way]]\<rparr>"
  note perm = LRU_invariant_row [OF inv row]
  from is_permutation_le [OF perm] way have w32: "way < 2 ^ 32" by simp
  then have uw: "unat (of_nat way :: uint32_t) = way"
    by (simp add: unat_of_nat)
  have upd: "update_stats_LRU way row True p = Inr ?p'"
    using update_stats_LRU_in_range [OF inv row way, of True] by simp
  have row': "stats_LRU ?p' ! row = ?rest @ [of_nat way]" "row < length (stats_LRU ?p')"
    using row by simp_all
  have len: "length ?rest + 1 = associativity_LRU p"
    using is_permutation_length [OF is_permutation_moved(1) [OF perm way]] by simp
  have iters: "move_to_back_iterations way (stats_LRU p ! row) (int (associativity_LRU p) - 1)
                (of_nat way) \<le> associativity_LRU p"
    using move_to_back_iterations_le [of way "stats_LRU p ! row" "int (associativity_LRU p) - 1" "of_nat way"]
    by simp
  have many: "\<exists>v. select_way_to_evict_LRU row ?p' = Inr v \<and> v \<noteq> way"
    if "associativity_LRU p \<noteq> 1"
  proof -
    from that len obtain x xs where rest: "?rest = x # xs"
      by (cases ?rest) auto
    then have "x \<in> set ?rest" by simp
    then have "unat x \<noteq> way" by simp
    moreover have "select_way_to_evict_LRU row ?p' = Inr (unat x)"
      using select_way_to_evict_LRU_front [OF row'(2), of x "xs @ [of_nat way]"] row'(1) rest
      by simp
    ultimately show ?thesis by simp
  qed
  have one: "select_way_to_evict_LRU row ?p' = Inr way" if "associativity_LRU p = 1"
  proof -
    from that len have "?rest = []" by simp
    then show ?thesis
      using select_way_to_evict_LRU_front [OF row'(2), of "of_nat way" "[]"] row'(1) uw
      by simp
  qed
  from upd row' uw iters many one show ?thesis
    by (intro exI [of _ ?p']) simp
qed

theorem LRU_hit_moves_way_to_back_witness:
  "(\<exists>p'. update_stats_LRU 0 1 True (CachePolicyLRU 3 2) = Inr p'
      \<and> stats_LRU p' = [[0, 1, 2], [1, 2, 0]]
      \<and> (\<exists>v. select_way_to_evict_LRU 1 p' = Inr v \<and> v \<noteq> 0))
   \<and> (\<exists>p'. update_stats_LRU 0 0 True (CachePolicyLRU 1 1) = Inr p'
      \<and> select_way_to_evict_LRU 0 p' = Inr 0)"
proof -
  have inv3: "LRU_invariant (CachePolicyLRU 3 2)"
    by (rule CachePolicyLRU_invariant) simp
  have row3: "1 < length (stats_LRU (CachePolicyLRU 3 2))"
    and way3: "0 < associativity_LRU (CachePolicyLRU 3 2)"
    and many: "associativity_LRU (CachePolicyLRU 3 2) \<noteq> 1"
    by (simp_all add: CachePolicyLRU_def)
  have new3: "(stats_LRU (CachePolicyLRU 3 2))
      [1 := filter (\<lambda>x. unat x \<noteq> 0) (stats_LRU (CachePolicyLRU 3 2) ! 1) @ [of_nat 0]]
      = [[0, 1, 2], [1, 2, 0]]"
    by code_simp
  have inv1: "LRU_invariant (CachePolicyLRU 1 1)"
    by (rule CachePolicyLRU_invariant) simp
  have row1: "0 < length (stats_LRU (CachePolicyLRU 1 1))"
    and way1: "0 < associativity_LRU (CachePolicyLRU 1 1)"
    and one: "associativity_LRU (CachePolicyLRU 1 1) = 1"
    by (simp_all add: CachePolicyLRU_def)
  from LRU_hit_moves_way_to_back [OF inv3 row3 way3] many new3
  have a: "\<exists>p'. update_stats_LRU 0 1 True (CachePolicyLRU 3 2) = Inr p'
      \<and> stats_LRU p' = [[0, 1, 2], [1, 2, 0]]
      \<and> (\<exists>v. select_way_to_evict_LRU 1 p' = Inr v \<and> v \<noteq> 0)"
    by auto
  from LRU_hit_moves_way_to_back [OF inv1 row1 way1] one
  have b: "\<exists>p'. update_stats_LRU 0 0 True (CachePolicyLRU 1 1) = Inr p'
      \<and> select_way_to_evict_LRU 0 p' = Inr 0"
    by auto
  from a b show ?thesis by blast
qed

subsection \<open>C9: the first victim of a new LRU policy\<close>

text \<open>
  C9.  Right after construction with a positive associativity (the configuration's domain),
  \<^verbatim>\<open>select_way_to_evict(row)\<close> returns 0 for every row below the row count, and the
  row holds \<open>0, 1, ..., associativity - 1\<close> in this order.
\<close>

theorem LRU_initial_victim:
  assumes "row < sets" and "0 < assoc"
  shows "select_way_to_evict_LRU row (CachePolicyLRU assoc sets) = Inr 0
         \<and> stats_LRU (CachePolicyLRU assoc sets) ! row = map of_nat [0..<assoc]"
proof -
  from assms(2) have "map of_nat [0..<assoc] = (0 :: uint32_t) # map of_nat [1..<assoc]"
    by (simp add: upt_conv_Cons)
  with assms(1) show ?thesis
    by (simp add: select_way_to_evict_LRU_def at_def CachePolicyLRU_def)
qed

theorem LRU_initial_victim_witness:
  "select_way_to_evict_LRU 3 (CachePolicyLRU 2 4) = Inr 0
   \<and> stats_LRU (CachePolicyLRU 2 4) ! 3 = [0, 1]"
  using LRU_initial_victim [of 3 4 2] by (simp add: upt_conv_Cons)

subsection \<open>C3: LFU evicts the lowest counter\<close>

text \<open>
  C3.  On a row that exists and has at least one way, the LFU policy's
  \<^verbatim>\<open>select_way_to_evict\<close> returns a way of that row whose counter is at most every
  counter of the row, and every way of lower index has a strictly greater counter (a tie goes
  to the lowest index).  If some counter of the row is 0, the way returned has counter 0,
  whatever the other counters are.
\<close>

theorem LFU_selects_lowest_counter:
  assumes row: "row < length (stats_LFU p)" and ne: "stats_LFU p ! row \<noteq> []"
  shows "\<exists>k. select_way_to_evict_LFU row p = Inr k \<and> k < length (stats_LFU p ! row)
    \<and> (\<forall>j<length (stats_LFU p ! row). stats_LFU p ! row ! k \<le> stats_LFU p ! row ! j)
    \<and> (\<forall>j<k. stats_LFU p ! row ! k < stats_LFU p ! row ! j)
    \<and> (0 \<in> set (stats_LFU p ! row) \<longrightarrow> stats_LFU p ! row ! k = 0)"
proof -
  from select_way_to_evict_LFU_first_minimum [OF row ne] obtain k where
    k: "select_way_to_evict_LFU row p = Inr k" "k < length (stats_LFU p ! row)"
    and least: "\<forall>j<length (stats_LFU p ! row). stats_LFU p ! row ! k \<le> stats_LFU p ! row ! j"
    and first: "\<forall>j<k. stats_LFU p ! row ! k < stats_LFU p ! row ! j"
    by blast
  have "stats_LFU p ! row ! k = 0" if "0 \<in> set (stats_LFU p ! row)"
  proof -
    from that obtain j where "j < length (stats_LFU p ! row)" "stats_LFU p ! row ! j = 0"
      by (auto simp: in_set_conv_nth)
    with least show ?thesis by (metis word_le_0_iff)
  qed
  with k least first show ?thesis by blast
qed

theorem LFU_selects_lowest_counter_witness:
  "select_way_to_evict_LFU 0 \<lparr>stats_LFU = [[7, 3, 9, 3]]\<rparr> = Inr 1
   \<and> select_way_to_evict_LFU 0 \<lparr>stats_LFU = [[7, 3, 0, 0]]\<rparr> = Inr 2"
proof -
  have sel: "select_way_to_evict_LFU 0 \<lparr>stats_LFU = [[7, 3, 9, 3]]\<rparr> = Inr 1"
    "select_way_to_evict_LFU 0 \<lparr>stats_LFU = [[7, 3, 0, 0]]\<rparr> = Inr 2"
    by code_simp+
  have "(0::nat) < length (stats_LFU \<lparr>stats_LFU = [[7, 3, 9, 3]]\<rparr>)"
    "stats_LFU \<lparr>stats_LFU = [[7, 3, 9, 3]]\<rparr> ! 0 \<noteq> []"
    by simp_all
  from LFU_selects_lowest_counter [OF this] sel show ?thesis by simp
qed

subsection \<open>C5: LFU invalidation\<close>

text \<open>
  C5.  With the row and the way in range, the LFU policy's
  \<^verbatim>\<open>update_stats(way, row, false)\<close> returns normally and sets that counter to 0,
  changing nothing else.  A following \<^verbatim>\<open>select_way_to_evict(row)\<close> returns the first way
  of the row with counter 0, which is not beyond \<open>way\<close>; it is \<open>way\<close> itself when no way of
  lower index had counter 0.
\<close>

theorem LFU_invalidate_resets_counter:
  assumes row: "row < length (stats_LFU p)" and way: "way < length (stats_LFU p ! row)"
  shows "\<exists>p'. update_stats_LFU way row False p = Inr p'
    \<and> stats_LFU p' = (stats_LFU p)[row := (stats_LFU p ! row)[way := 0]]
    \<and> stats_LFU p' ! row ! way = 0
    \<and> (\<exists>k. select_way_to_evict_LFU row p' = Inr k \<and> k \<le> way
          \<and> stats_LFU p' ! row ! k = 0 \<and> (\<forall>j<k. stats_LFU p' ! row ! j \<noteq> 0))
    \<and> ((\<forall>j<way. stats_LFU p ! row ! j \<noteq> 0) \<longrightarrow> select_way_to_evict_LFU row p' = Inr way)"
proof -
  let ?p' = "p\<lparr>stats_LFU := (stats_LFU p)[row := (stats_LFU p ! row)[way := 0]]\<rparr>"
  have upd: "update_stats_LFU way row False p = Inr ?p'"
    using update_stats_LFU_in_range [OF row way, of False] by simp
  have row': "row < length (stats_LFU ?p')" and way': "way < length (stats_LFU ?p' ! row)"
    and zero: "stats_LFU ?p' ! row ! way = 0"
    using row way by simp_all
  from select_way_to_evict_LFU_zero [OF row' way' zero] obtain k where
    k: "select_way_to_evict_LFU row ?p' = Inr k" "k \<le> way" "stats_LFU ?p' ! row ! k = 0"
      "\<forall>j<k. stats_LFU ?p' ! row ! j \<noteq> 0"
    by blast
  have "select_way_to_evict_LFU row ?p' = Inr way" if "\<forall>j<way. stats_LFU p ! row ! j \<noteq> 0"
  proof -
    have "\<not> k < way"
    proof
      assume "k < way"
      with that k(3) row show False by simp
    qed
    with k(1,2) show ?thesis by simp
  qed
  with upd zero k show ?thesis
    by (intro exI [of _ ?p']) (simp add: row)
qed

theorem LFU_invalidate_resets_counter_witness:
  "\<exists>p'. update_stats_LFU 1 0 False \<lparr>stats_LFU = [[4, 6, 0, 2]]\<rparr> = Inr p'
     \<and> stats_LFU p' = [[4, 0, 0, 2]] \<and> select_way_to_evict_LFU 0 p' = Inr 1"
proof -
  have row: "(0::nat) < length (stats_LFU \<lparr>stats_LFU = [[4, 6, 0, 2]]\<rparr>)"
    and way: "(1::nat) < length (stats_LFU \<lparr>stats_LFU = [[4, 6, 0, 2]]\<rparr> ! 0)"
    by simp_all
  have first: "\<forall>j<1::nat. stats_LFU \<lparr>stats_LFU = [[4, 6, 0, 2]]\<rparr> ! 0 ! j \<noteq> 0"
    by simp
  from LFU_invalidate_resets_counter [OF row way] first show ?thesis
    by auto
qed

subsection \<open>C10: the LFU counter wraps\<close>

text \<open>
  C10.  With the row and the way in range, the LFU policy's
  \<^verbatim>\<open>update_stats(way, row, true)\<close> returns normally and adds 1 to that counter modulo
  \<open>2 ^ 32\<close>.  From \<open>2 ^ 32 - 1\<close> the counter becomes 0; a following
  \<^verbatim>\<open>select_way_to_evict(row)\<close> then returns a way with counter 0 not beyond \<open>way\<close>,
  and \<open>way\<close> itself when no way of lower index has counter 0.
\<close>

theorem LFU_counter_wraps:
  assumes row: "row < length (stats_LFU p)" and way: "way < length (stats_LFU p ! row)"
  shows "\<exists>p'. update_stats_LFU way row True p = Inr p'
    \<and> stats_LFU p' = (stats_LFU p)[row := (stats_LFU p ! row)[way := stats_LFU p ! row ! way + 1]]
    \<and> unat (stats_LFU p' ! row ! way) = (unat (stats_LFU p ! row ! way) + 1) mod 2 ^ 32
    \<and> (unat (stats_LFU p ! row ! way) = 2 ^ 32 - 1 \<longrightarrow>
         stats_LFU p' ! row ! way = 0
         \<and> (\<exists>k. select_way_to_evict_LFU row p' = Inr k \<and> k \<le> way \<and> stats_LFU p' ! row ! k = 0)
         \<and> ((\<forall>j<way. stats_LFU p ! row ! j \<noteq> 0) \<longrightarrow> select_way_to_evict_LFU row p' = Inr way))"
proof -
  let ?c = "stats_LFU p ! row ! way"
  let ?p' = "p\<lparr>stats_LFU := (stats_LFU p)[row := (stats_LFU p ! row)[way := ?c + 1]]\<rparr>"
  have upd: "update_stats_LFU way row True p = Inr ?p'"
    using update_stats_LFU_in_range [OF row way, of True] by simp
  have row': "row < length (stats_LFU ?p')" and way': "way < length (stats_LFU ?p' ! row)"
    and new: "stats_LFU ?p' ! row ! way = ?c + 1"
    using row way by simp_all
  have mod: "unat (?c + 1) = (unat ?c + 1) mod 2 ^ 32"
    by (simp add: unat_word_ariths)
  have wrap: "stats_LFU ?p' ! row ! way = 0
         \<and> (\<exists>k. select_way_to_evict_LFU row ?p' = Inr k \<and> k \<le> way \<and> stats_LFU ?p' ! row ! k = 0)
         \<and> ((\<forall>j<way. stats_LFU p ! row ! j \<noteq> 0) \<longrightarrow> select_way_to_evict_LFU row ?p' = Inr way)"
    if top: "unat ?c = 2 ^ 32 - 1"
  proof -
    from mod top have "unat (?c + 1) = 0" by simp
    then have zero: "stats_LFU ?p' ! row ! way = 0"
      unfolding new by (simp add: unat_eq_0)
    from select_way_to_evict_LFU_zero [OF row' way' zero] obtain k where
      k: "select_way_to_evict_LFU row ?p' = Inr k" "k \<le> way" "stats_LFU ?p' ! row ! k = 0"
      by blast
    have "select_way_to_evict_LFU row ?p' = Inr way" if "\<forall>j<way. stats_LFU p ! row ! j \<noteq> 0"
    proof -
      have "\<not> k < way"
      proof
        assume "k < way"
        with that k(3) row show False by simp
      qed
      with k(1,2) show ?thesis by simp
    qed
    with zero k show ?thesis by blast
  qed
  have s: "stats_LFU ?p' = (stats_LFU p)[row := (stats_LFU p ! row)[way := ?c + 1]]"
    by simp
  have m: "unat (stats_LFU ?p' ! row ! way) = (unat ?c + 1) mod 2 ^ 32"
    unfolding new by (rule mod)
  from upd s m wrap show ?thesis
    by blast
qed

theorem LFU_counter_wraps_witness:
  "\<exists>p'. update_stats_LFU 1 0 True \<lparr>stats_LFU = [[5, 4294967295, 7]]\<rparr> = Inr p'
     \<and> stats_LFU p' = [[5, 0, 7]] \<and> select_way_to_evict_LFU 0 p' = Inr 1"
proof -
  have row: "(0::nat) < length (stats_LFU \<lparr>stats_LFU = [[5, 4294967295, 7]]\<rparr>)"
    and way: "(1::nat) < length (stats_LFU \<lparr>stats_LFU = [[5, 4294967295, 7]]\<rparr> ! 0)"
    by simp_all
  have top: "unat (stats_LFU \<lparr>stats_LFU = [[5, 4294967295, 7]]\<rparr> ! 0 ! 1) = 2 ^ 32 - 1"
    by simp
  have first: "\<forall>j<1::nat. stats_LFU \<lparr>stats_LFU = [[5, 4294967295, 7]]\<rparr> ! 0 ! j \<noteq> 0"
    by simp
  from LFU_counter_wraps [OF row way] top first show ?thesis
    by auto
qed

subsection \<open>C6: the Random policy\<close>

text \<open>
  C6, as stated, fails.  The generator belongs to the process, not to a policy, so two fresh
  policies of the same associativity that exist side by side draw from one stream.  With the
  sample library: both constructors leave the generator at the state of seed 1; the first
  policy's three calls then return 2, 2, 1 and move the generator on, and the second
  policy's same three calls return 3, 3, 3.  No \<^verbatim>\<open>update_stats\<close> call intervenes.
\<close>

theorem RAND_coexisting_counterexample:
  "CachePolicyRAND sample_stdlib 4 0 = (\<lparr>associativity_RAND = 4\<rparr>, 1)
   \<and> CachePolicyRAND sample_stdlib 4 1 = (\<lparr>associativity_RAND = 4\<rparr>, 1)
   \<and> evictions_RAND sample_stdlib \<lparr>associativity_RAND = 4\<rparr> [0, 0, 0] 1
       = ([Inr 2, Inr 2, Inr 1], 662824084)
   \<and> evictions_RAND sample_stdlib \<lparr>associativity_RAND = 4\<rparr> [0, 0, 0] 662824084
       = ([Inr 3, Inr 3, Inr 3], 2516284547)
   \<and> [Inr 2, Inr 2, Inr 1] \<noteq> [Inr 3, Inr 3, Inr 3 :: exn + nat]"
  by (simp add: CachePolicyRAND_def select_way_to_evict_RAND_def sample_stdlib_def)

text \<open>
  C6, amended.  The Random policy's \<^verbatim>\<open>update_stats\<close> returns with the policy unchanged.
  With a positive associativity every \<^verbatim>\<open>select_way_to_evict\<close> returns a way below it.
  A policy that is built and then asked for its victims, with no other Random policy built
  and no other draw from the process generator between its construction and its last call,
  gives the same victims whatever state the generator was in before the constructor ran; so
  two policies of the same associativity, each built and run in this way on the same
  sequence of calls, give the same victims, and in particular a second policy built after
  the first one's run repeats the first one's victims.
\<close>

theorem RAND_reproducible:
  "update_stats_RAND way row is_valid p = Inr p
   \<and> (0 < associativity_RAND p \<longrightarrow>
        (\<exists>v. fst (select_way_to_evict_RAND L row p g) = Inr v \<and> v < associativity_RAND p))
   \<and> fst (fresh_evictions_RAND L assoc rows g1) = fst (fresh_evictions_RAND L assoc rows g2)
   \<and> fst (fresh_evictions_RAND L assoc rows (snd (fresh_evictions_RAND L assoc rows g1)))
       = fst (fresh_evictions_RAND L assoc rows g1)"
  by (simp add: update_stats_RAND_def select_way_to_evict_RAND_def fresh_evictions_RAND_def
      CachePolicyRAND_def split: prod.splits)

theorem RAND_reproducible_witness:
  "(\<exists>v. fst (select_way_to_evict_RAND sample_stdlib 0 \<lparr>associativity_RAND = 4\<rparr> 1) = Inr v \<and> v < 4)
   \<and> fst (fresh_evictions_RAND sample_stdlib 4 [0, 1, 0] 5)
       = fst (fresh_evictions_RAND sample_stdlib 4 [0, 1, 0] 77)"
  using RAND_reproducible [where p = "\<lparr>associativity_RAND = 4\<rparr>" and L = sample_stdlib
      and row = 0 and g = 1 and assoc = 4 and rows = "[0, 1, 0]" and ?g1.0 = 5 and ?g2.0 = 77]
  by simp

subsection \<open>C7: the factory\<close>

text \<open>
  C7.  For a disabled configuration the factory returns the null pointer and leaves the
  generator alone.  For an enabled one it returns one policy object of the subclass the
  selector names, built by that subclass's constructor from the configuration's
  associativity (and row count).
\<close>

theorem factory_selects_variant:
  "(\<not> enabled config \<longrightarrow> get_policy_instance L config g = (None, g))
   \<and> (enabled config \<longrightarrow>
        (\<exists>p. fst (get_policy_instance L config g) = Some p \<and> variant p = replacement_policy config))
   \<and> (enabled config \<and> replacement_policy config = RP_RAND \<longrightarrow>
        get_policy_instance L config g
          = (Some (RAND (fst (CachePolicyRAND L (associativity config) g))), srand L 1))
   \<and> (enabled config \<and> replacement_policy config = RP_LRU \<longrightarrow>
        get_policy_instance L config g
          = (Some (LRU (CachePolicyLRU (associativity config) (set_count config))), g))
   \<and> (enabled config \<and> replacement_policy config = RP_LFU \<longrightarrow>
        get_policy_instance L config g
          = (Some (LFU (CachePolicyLFU (associativity config) (set_count config))), g))"
  by (cases "replacement_policy config")
    (simp_all add: get_policy_instance_def CachePolicyRAND_def)

theorem factory_selects_variant_witness:
  "get_policy_instance sample_stdlib
      \<lparr>enabled = False, replacement_policy = RP_LRU, associativity = 2, set_count = 4\<rparr> 0 = (None, 0)
   \<and> get_policy_instance sample_stdlib
      \<lparr>enabled = True, replacement_policy = RP_LRU, associativity = 2, set_count = 4\<rparr> 0
     = (Some (LRU (CachePolicyLRU 2 4)), 0)
   \<and> get_policy_instance sample_stdlib
      \<lparr>enabled = True, replacement_policy = RP_RAND, associativity = 2, set_count = 4\<rparr> 0
     = (Some (RAND \<lparr>associativity_RAND = 2\<rparr>), 1)
   \<and> get_policy_instance sample_stdlib
      \<lparr>enabled = True, replacement_policy = RP_LFU, associativity = 2, set_count = 4\<rparr> 0
     = (Some (LFU (CachePolicyLFU 2 4)), 0)"
  using factory_selects_variant [of "\<lparr>enabled = False, replacement_policy = RP_LRU, associativity = 2, set_count = 4\<rparr>" sample_stdlib 0]
    factory_selects_variant [of "\<lparr>enabled = True, replacement_policy = RP_LRU, associativity = 2, set_count = 4\<rparr>" sample_stdlib 0]
    factory_selects_variant [of "\<lparr>enabled = True, replacement_policy = RP_RAND, associativity = 2, set_count = 4\<rparr>" sample_stdlib 0]
    factory_selects_variant [of "\<lparr>enabled = True, replacement_policy = RP_LFU, associativity = 2, set_count = 4\<rparr>" sample_stdlib 0]
  by (simp add: CachePolicyRAND_def sample_stdlib_def)

subsection \<open>C8: the fault taxonomy\<close>

text \<open>
  C8.  Each of the seven runtime classes derives directly from Runtime and nothing derives
  from it; these seven are all that derives from Runtime.  Runtime, Input and Sanity derive
  from the common base only.  A handler for Runtime or for Input does not catch a Sanity
  exception: the classes a Runtime handler catches are Runtime and its seven children, an
  Input handler catches Input alone, and only a Sanity handler catches Sanity.
\<close>

theorem fault_taxonomy:
  "parent UnsupportedInstruction = Some Runtime \<and> children UnsupportedInstruction = []
   \<and> parent UnsupportedAluOperation = Some Runtime \<and> children UnsupportedAluOperation = []
   \<and> parent Overflow = Some Runtime \<and> children Overflow = []
   \<and> parent UnalignedJump = Some Runtime \<and> children UnalignedJump = []
   \<and> parent UnknownMemoryControl = Some Runtime \<and> children UnknownMemoryControl = []
   \<and> parent OutOfMemoryAccess = Some Runtime \<and> children OutOfMemoryAccess = []
   \<and> parent SyscallUnknown = Some Runtime \<and> children SyscallUnknown = []
   \<and> children Runtime = [UnsupportedInstruction, UnsupportedAluOperation, Overflow,
         UnalignedJump, UnknownMemoryControl, OutOfMemoryAccess, SyscallUnknown]
   \<and> parent Runtime = None \<and> parent Input = None \<and> parent Sanity = None
   \<and> children Sanity = [] \<and> children Input = []
   \<and> \<not> caught_by Sanity Runtime \<and> \<not> caught_by Sanity Input
   \<and> filter (\<lambda>k. caught_by k Runtime) (map fst SIMULATOR_EXCEPTIONS)
       = [Runtime, UnsupportedInstruction, UnsupportedAluOperation, Overflow,
          UnalignedJump, UnknownMemoryControl, OutOfMemoryAccess, SyscallUnknown]
   \<and> filter (\<lambda>k. caught_by k Input) (map fst SIMULATOR_EXCEPTIONS) = [Input]
   \<and> filter (\<lambda>k. caught_by k Sanity) (map fst SIMULATOR_EXCEPTIONS) = [Sanity]"
  by (simp add: children_simps parent_simps caught_by_def ancestors_simps SIMULATOR_EXCEPTIONS_def)

end
